theory Spec2Isabelle
  imports Main "HOL-Library.Sublist"
begin

section \<open>Open/Closed example: products, specifications and filters\<close>

subsection \<open>Data model\<close>

text \<open>The enumerations \<^verbatim>\<open>Color\<close> and \<^verbatim>\<open>Size\<close> of \<^verbatim>\<open>open_closed.py\<close>. The source
  compares members with \<^verbatim>\<open>is\<close>; enum members are singletons, so identity is equality.\<close>

datatype Color = RED | GREEN | BLUE

datatype Size = SMALL | MEDIUM | LARGE

text \<open>The dataclass \<^verbatim>\<open>Product\<close>. The field \<^verbatim>\<open>size\<close> is called \<open>size_attr\<close>, as
  \<open>size\<close> is a constant of HOL.\<close>

record Product =
  name :: string
  color :: Color
  size_attr :: Size

text \<open>The subclasses of \<^verbatim>\<open>Specification\<close>: the two leaves, the three combinators, which
  keep the tuple \<^verbatim>\<open>_specs\<close> of their children, and the \<^verbatim>\<open>MockSpecification\<close> of
  \<^verbatim>\<open>open_closed_test.py\<close>, whose \<^verbatim>\<open>is_satisfied\<close> is a mock with a fixed return value.
  No method of the source assigns an attribute of a specification after \<^verbatim>\<open>__init__\<close>, so
  a specification object is modelled by its value.\<close>

datatype Specification =
    ColorSpecification Color
  | SizeSpecification Size
  | AndSpecification "Specification list"
  | OrSpecification "Specification list"
  | XorSpecification "Specification list"
  | MockSpecification bool

subsection \<open>Mutable objects\<close>

text \<open>The objects of the example that change or could change after they are built are
  the collections of products and the map objects. In Python 3 \<^verbatim>\<open>map(f, xs)\<close> is an
  iterator: every \<^verbatim>\<open>next\<close> on it yields one more value and moves it forward, whoever
  holds the reference. The heap keeps these objects by address; a map object is the list
  of the values it has yet to yield.\<close>

datatype pyobj = ListObject "Product list" | MapObject "bool list"

type_synonym ref = nat

type_synonym heap = "pyobj list"

text \<open>Building a map object: a fresh address, one past the objects that exist.\<close>

definition new_map :: "bool list \<Rightarrow> heap \<Rightarrow> ref \<times> heap" where
  "new_map vals h = (length h, h @ [MapObject vals])"

text \<open>\<^verbatim>\<open>next(it)\<close> on a map object; \<open>None\<close> is \<^verbatim>\<open>StopIteration\<close>. The last case
  (an address that holds no map object) is not reached: the source applies \<^verbatim>\<open>any\<close> and
  \<^verbatim>\<open>all\<close> only to the map object it has just built.\<close>

definition py_next :: "ref \<Rightarrow> heap \<Rightarrow> bool option \<times> heap" where
  "py_next it h =
     (if it < length h then
        (case h ! it of
           MapObject (v # vs) \<Rightarrow> (Some v, h[it := MapObject vs])
         | _ \<Rightarrow> (None, h))
      else (None, h))"

definition remaining :: "ref \<Rightarrow> heap \<Rightarrow> nat" where
  "remaining it h =
     (if it < length h then (case h ! it of MapObject vs \<Rightarrow> length vs | _ \<Rightarrow> 0) else 0)"

text \<open>The builtin \<^verbatim>\<open>any\<close>: it takes values from the iterator until one is true and
  leaves the rest in the iterator.\<close>

function py_any :: "ref \<Rightarrow> heap \<Rightarrow> bool \<times> heap" where
  "py_any it h =
     (case py_next it h of
        (None, h') \<Rightarrow> (False, h')
      | (Some v, h') \<Rightarrow> if v then (True, h') else py_any it h')"
  by pat_completeness auto
termination
  by (relation "measure (\<lambda>(it, h). remaining it h)")
     (auto simp: py_next_def remaining_def split: if_splits pyobj.splits list.splits)

text \<open>The builtin \<^verbatim>\<open>all\<close>: it stops at the first false value.\<close>

function py_all :: "ref \<Rightarrow> heap \<Rightarrow> bool \<times> heap" where
  "py_all it h =
     (case py_next it h of
        (None, h') \<Rightarrow> (True, h')
      | (Some v, h') \<Rightarrow> if v then py_all it h' else (False, h'))"
  by pat_completeness auto
termination
  by (relation "measure (\<lambda>(it, h). remaining it h)")
     (auto simp: py_next_def remaining_def split: if_splits pyobj.splits list.splits)

declare py_any.simps [simp del] py_all.simps [simp del]

subsection \<open>Specifications\<close>

text \<open>\<^verbatim>\<open>is_satisfied\<close> of each class. In the three combinators
  \<^verbatim>\<open>map(lambda spec: spec.is_satisfied(item), self._specs)\<close> is \<open>children_satisfied\<close>
  followed by \<open>new_map\<close>: the values of the children, left to right, in a new map object.
  Python computes a child's value when \<^verbatim>\<open>any\<close> or \<^verbatim>\<open>all\<close> asks the map object for it, and
  does not compute the values behind the point where they stop. Here the values are
  computed when the map object is built. That gives the same values and the same result:
  by \<open>is_satisfied_frame\<close> below the evaluation of a child reads no object of the heap and
  changes none that exists, it only adds map objects of its own.\<close>

fun is_satisfied :: "Specification \<Rightarrow> Product \<Rightarrow> heap \<Rightarrow> bool \<times> heap"
  and children_satisfied :: "Specification list \<Rightarrow> Product \<Rightarrow> heap \<Rightarrow> bool list \<times> heap"
where
  "is_satisfied (ColorSpecification c) item h = (color item = c, h)"
| "is_satisfied (SizeSpecification s) item h = (size_attr item = s, h)"
| "is_satisfied (MockSpecification b) item h = (b, h)"
| "is_satisfied (AndSpecification specs) item h =
     (let (vals, h1) = children_satisfied specs item h;
          (satisfied, h2) = new_map vals h1
      in py_all satisfied h2)"
| "is_satisfied (OrSpecification specs) item h =
     (let (vals, h1) = children_satisfied specs item h;
          (satisfied, h2) = new_map vals h1
      in py_any satisfied h2)"
| "is_satisfied (XorSpecification specs) item h =
     (let (vals, h1) = children_satisfied specs item h;
          (satisfied, h2) = new_map vals h1;
          (first, h3) = py_any satisfied h2
      in if first then (let (second, h4) = py_any satisfied h3 in (\<not> second, h4))
         else (False, h3))"
| "children_satisfied [] item h = ([], h)"
| "children_satisfied (spec # specs) item h =
     (let (v, h1) = is_satisfied spec item h;
          (vs, h2) = children_satisfied specs item h1
      in (v # vs, h2))"

text \<open>The operators \<^verbatim>\<open>__and__\<close>, \<^verbatim>\<open>__or__\<close> and \<^verbatim>\<open>__xor__\<close> of the base class, and the
  attribute \<^verbatim>\<open>_specs\<close> (\<open>None\<close> for a class that has none).\<close>

definition Specification_and :: "Specification \<Rightarrow> Specification \<Rightarrow> Specification" where
  "Specification_and self other = AndSpecification [self, other]"




subsection \<open>Filters\<close>

text \<open>The generators of \<^verbatim>\<open>ProductFilter\<close> and \<^verbatim>\<open>BetterFilter\<close>: the list of the
  products a generator yields when it is run to its end, in the order it yields them.\<close>

fun filter_by_color :: "Product list \<Rightarrow> Color \<Rightarrow> Product list" where
  "filter_by_color [] c = []"
| "filter_by_color (item # items) c =
     (if color item = c then item # filter_by_color items c else filter_by_color items c)"

fun filter_by_size :: "Product list \<Rightarrow> Size \<Rightarrow> Product list" where
  "filter_by_size [] s = []"
| "filter_by_size (item # items) s =
     (if size_attr item = s then item # filter_by_size items s else filter_by_size items s)"

fun filter_by_size_and_color :: "Product list \<Rightarrow> Size \<Rightarrow> Color \<Rightarrow> Product list" where
  "filter_by_size_and_color [] s c = []"
| "filter_by_size_and_color (item # items) s c =
     (if color item = c \<and> size_attr item = s
      then item # filter_by_size_and_color items s c
      else filter_by_size_and_color items s c)"

fun BetterFilter_filter :: "Product list \<Rightarrow> Specification \<Rightarrow> heap \<Rightarrow> Product list \<times> heap" where
  "BetterFilter_filter [] spec h = ([], h)"
| "BetterFilter_filter (item # items) spec h =
     (let (ok, h1) = is_satisfied spec item h;
          (rest, h2) = BetterFilter_filter items spec h1
      in (if ok then item # rest else rest, h2))"

text \<open>The three products of the demonstration and of the tests.\<close>

definition apple :: Product where
  "apple = \<lparr>name = ''Apple'', color = GREEN, size_attr = SMALL\<rparr>"

definition tree :: Product where
  "tree = \<lparr>name = ''Tree'', color = GREEN, size_attr = LARGE\<rparr>"

definition house :: Product where
  "house = \<lparr>name = ''House'', color = BLUE, size_attr = LARGE\<rparr>"

section \<open>Single responsibility example: the journal\<close>

record Journal =
  entries :: "string list"

datatype error = IndexError

definition Journal_init :: Journal where
  "Journal_init = \<lparr>entries = []\<rparr>"

text \<open>\<^verbatim>\<open>self.entries.append(f"{text}")\<close>: formatting a string gives the string.\<close>

definition add_entry :: "Journal \<Rightarrow> string \<Rightarrow> Journal" where
  "add_entry self text = self\<lparr>entries := entries self @ [text]\<rparr>"

text \<open>\<^verbatim>\<open>del self.entries[entry_num - 1]\<close>: a negative index counts from the end of the
  list, and an index outside the list raises \<^verbatim>\<open>IndexError\<close>.\<close>

definition remove_entry :: "Journal \<Rightarrow> int \<Rightarrow> error + Journal" where
  "remove_entry self entry_num =
     (let n = int (length (entries self));
          i = entry_num - 1;
          j = (if i < 0 then i + n else i)
      in if 0 \<le> j \<and> j < n
         then Inr (self\<lparr>entries := take (nat j) (entries self) @ drop (Suc (nat j)) (entries self)\<rparr>)
         else Inl IndexError)"

section \<open>Properties of the map objects and of the specifications\<close>

subsection \<open>What \<^verbatim>\<open>any\<close> and \<^verbatim>\<open>all\<close> do to a map object\<close>

lemma py_any_cell:
  "it < length h \<Longrightarrow> h ! it = MapObject vals \<Longrightarrow>
   py_any it h = (True \<in> set vals, h[it := MapObject (tl (dropWhile Not vals))])"
proof (induction vals arbitrary: h)
  case Nil
  then show ?case
    using list_update_id[of h it] by (subst py_any.simps) (simp add: py_next_def)
next
  case (Cons v vs)
  show ?case
  proof (cases v)
    case True
    with Cons.prems show ?thesis
      by (subst py_any.simps) (simp add: py_next_def)
  next
    case False
    have "py_any it (h[it := MapObject vs]) =
          (True \<in> set vs, (h[it := MapObject vs])[it := MapObject (tl (dropWhile Not vs))])"
      using Cons.prems by (intro Cons.IH) simp_all
    with False Cons.prems show ?thesis
      by (subst py_any.simps) (simp add: py_next_def)
  qed
qed

lemma py_all_cell:
  "it < length h \<Longrightarrow> h ! it = MapObject vals \<Longrightarrow>
   py_all it h = (False \<notin> set vals, h[it := MapObject (tl (dropWhile (\<lambda>v. v) vals))])"
proof (induction vals arbitrary: h)
  case Nil
  then show ?case
    using list_update_id[of h it] by (subst py_all.simps) (simp add: py_next_def)
next
  case (Cons v vs)
  show ?case
  proof (cases v)
    case False
    with Cons.prems show ?thesis
      by (subst py_all.simps) (simp add: py_next_def)
  next
    case True
    have "py_all it (h[it := MapObject vs]) =
          (False \<notin> set vs, (h[it := MapObject vs])[it := MapObject (tl (dropWhile (\<lambda>v. v) vs))])"
      using Cons.prems by (intro Cons.IH) simp_all
    with True Cons.prems show ?thesis
      by (subst py_all.simps) (simp add: py_next_def)
  qed
qed

lemma py_any_new_map:
  "py_any (length h) (h @ [MapObject vals]) =
     (True \<in> set vals, h @ [MapObject (tl (dropWhile Not vals))])"
  by (simp add: py_any_cell)

lemma py_all_new_map:
  "py_all (length h) (h @ [MapObject vals]) =
     (False \<notin> set vals, h @ [MapObject (tl (dropWhile (\<lambda>v. v) vals))])"
  by (simp add: py_all_cell)

subsection \<open>The combinators, unfolded\<close>

lemma AndSpecification_unfold:
  "is_satisfied (AndSpecification specs) item h =
     (case children_satisfied specs item h of
        (vals, h1) \<Rightarrow> (False \<notin> set vals, h1 @ [MapObject (tl (dropWhile (\<lambda>v. v) vals))]))"
  by (simp add: new_map_def py_all_new_map split: prod.splits)

lemma OrSpecification_unfold:
  "is_satisfied (OrSpecification specs) item h =
     (case children_satisfied specs item h of
        (vals, h1) \<Rightarrow> (True \<in> set vals, h1 @ [MapObject (tl (dropWhile Not vals))]))"
  by (simp add: new_map_def py_any_new_map split: prod.splits)

lemma XorSpecification_unfold:
  "is_satisfied (XorSpecification specs) item h =
     (case children_satisfied specs item h of
        (vals, h1) \<Rightarrow>
          (True \<in> set vals \<and> True \<notin> set (tl (dropWhile Not vals)),
           h1 @ [MapObject (if True \<in> set vals then tl (dropWhile Not (tl (dropWhile Not vals)))
                            else tl (dropWhile Not vals))]))"
  by (simp add: new_map_def py_any_new_map split: prod.splits)

declare is_satisfied.simps(4,5,6) [simp del]

subsection \<open>Evaluation changes no object that exists and depends on none\<close>

lemma children_frame:
  assumes "\<And>c. c \<in> set ss \<Longrightarrow> \<exists>b g. \<forall>h. is_satisfied c item h = (b, h @ g)"
  shows "\<exists>bs g. \<forall>h. children_satisfied ss item h = (bs, h @ g)"
  using assms
proof (induction ss)
  case Nil
  show ?case by simp
next
  case (Cons s ss)
  from Cons.prems obtain b g where s: "\<And>h. is_satisfied s item h = (b, h @ g)"
    by (meson list.set_intros(1))
  from Cons obtain bs g' where ss: "\<And>h. children_satisfied ss item h = (bs, h @ g')"
    by (meson list.set_intros(2))
  have "\<forall>h. children_satisfied (s # ss) item h = (b # bs, h @ (g @ g'))"
    by (simp add: s ss)
  then show ?case by blast
qed

lemma is_satisfied_frame:
  "\<exists>b g. \<forall>h. is_satisfied s item h = (b, h @ g)"
proof (induction s)
  case (AndSpecification specs)
  then obtain bs g where c: "\<And>h. children_satisfied specs item h = (bs, h @ g)"
    using children_frame[of specs item] by blast
  have "\<forall>h. is_satisfied (AndSpecification specs) item h =
          (False \<notin> set bs, h @ (g @ [MapObject (tl (dropWhile (\<lambda>v. v) bs))]))"
    by (simp add: AndSpecification_unfold c)
  then show ?case by blast
next
  case (OrSpecification specs)
  then obtain bs g where c: "\<And>h. children_satisfied specs item h = (bs, h @ g)"
    using children_frame[of specs item] by blast
  have "\<forall>h. is_satisfied (OrSpecification specs) item h =
          (True \<in> set bs, h @ (g @ [MapObject (tl (dropWhile Not bs))]))"
    by (simp add: OrSpecification_unfold c)
  then show ?case by blast
next
  case (XorSpecification specs)
  then obtain bs g where c: "\<And>h. children_satisfied specs item h = (bs, h @ g)"
    using children_frame[of specs item] by blast
  have "\<forall>h. is_satisfied (XorSpecification specs) item h =
          (True \<in> set bs \<and> True \<notin> set (tl (dropWhile Not bs)),
           h @ (g @ [MapObject (if True \<in> set bs then tl (dropWhile Not (tl (dropWhile Not bs)))
                                else tl (dropWhile Not bs))]))"
    by (simp add: XorSpecification_unfold c)
  then show ?case by blast
qed auto

lemma is_satisfied_heap_indep:
  "fst (is_satisfied s item h) = fst (is_satisfied s item h')"
  using is_satisfied_frame[of s item] by (metis fst_conv)

lemma is_satisfied_extends:
  "\<exists>g. snd (is_satisfied s item h) = h @ g"
  using is_satisfied_frame[of s item] by (metis snd_conv)

lemma children_satisfied_vals:
  "fst (children_satisfied ss item h) = map (\<lambda>c. fst (is_satisfied c item h)) ss"
proof (induction ss arbitrary: h)
  case Nil
  show ?case by simp
next
  case (Cons s ss)
  have "map (\<lambda>c. fst (is_satisfied c item (snd (is_satisfied s item h)))) ss =
        map (\<lambda>c. fst (is_satisfied c item h)) ss"
    using is_satisfied_heap_indep by (intro map_cong) auto
  with Cons[of "snd (is_satisfied s item h)"] show ?case
    by (simp add: split_beta)
qed

lemma children_satisfied_extends:
  "\<exists>g. snd (children_satisfied ss item h) = h @ g"
  using children_frame[of ss item] is_satisfied_frame by (metis snd_conv)

lemma AndSpecification_vals:
  "fst (is_satisfied (AndSpecification specs) item h) =
     (False \<notin> set (map (\<lambda>c. fst (is_satisfied c item h)) specs))"
  using children_satisfied_vals[of specs item h]
  by (simp add: AndSpecification_unfold split_beta del: set_map)

lemma OrSpecification_vals:
  "fst (is_satisfied (OrSpecification specs) item h) =
     (True \<in> set (map (\<lambda>c. fst (is_satisfied c item h)) specs))"
  using children_satisfied_vals[of specs item h]
  by (simp add: OrSpecification_unfold split_beta del: set_map)

lemma XorSpecification_vals:
  "fst (is_satisfied (XorSpecification specs) item h) =
     (True \<in> set (map (\<lambda>c. fst (is_satisfied c item h)) specs) \<and>
      True \<notin> set (tl (dropWhile Not (map (\<lambda>c. fst (is_satisfied c item h)) specs))))"
  using children_satisfied_vals[of specs item h]
  by (simp add: XorSpecification_unfold split_beta del: set_map)

subsection \<open>Counting the satisfied children\<close>

lemma exactly_one_true:
  "(True \<in> set vals \<and> True \<notin> set (tl (dropWhile Not vals))) = (length (filter (\<lambda>v. v) vals) = 1)"
proof (induction vals)
  case Nil
  show ?case by simp
next
  case (Cons v vs)
  show ?case
  proof (cases v)
    case True
    then show ?thesis by (auto simp: filter_empty_conv)
  next
    case False
    with Cons show ?thesis by simp
  qed
qed

lemma XorSpecification_count:
  "fst (is_satisfied (XorSpecification specs) item h) =
     (length (filter (\<lambda>c. fst (is_satisfied c item h)) specs) = 1)"
  unfolding XorSpecification_vals exactly_one_true
  by (simp add: filter_map comp_def)

subsection \<open>The filter loop\<close>

lemma BetterFilter_filter_frame:
  "\<exists>g. snd (BetterFilter_filter items spec h) = h @ g"
proof (induction items arbitrary: h)
  case Nil
  show ?case by simp
next
  case (Cons item items)
  obtain g where g: "snd (is_satisfied spec item h) = h @ g"
    using is_satisfied_extends by blast
  obtain g' where "snd (BetterFilter_filter items spec (h @ g)) = (h @ g) @ g'"
    using Cons by blast
  with g show ?case by (simp add: split_beta)
qed

lemma BetterFilter_filter_vals:
  "fst (BetterFilter_filter items spec h) = filter (\<lambda>item. fst (is_satisfied spec item h)) items"
proof (induction items arbitrary: h)
  case Nil
  show ?case by simp
next
  case (Cons item items)
  have "filter (\<lambda>i. fst (is_satisfied spec i (snd (is_satisfied spec item h)))) items =
        filter (\<lambda>i. fst (is_satisfied spec i h)) items"
    using is_satisfied_heap_indep by (intro filter_cong) auto
  with Cons[of "snd (is_satisfied spec item h)"] show ?case
    by (simp add: split_beta)
qed

lemma two_indices_Cons:
  "(\<exists>i j. i < j \<and> j < length (x # xs) \<and> P ((x # xs) ! i) \<and> P ((x # xs) ! j)) =
     ((P x \<and> (\<exists>y\<in>set xs. P y)) \<or> (\<exists>i j. i < j \<and> j < length xs \<and> P (xs ! i) \<and> P (xs ! j)))"
  (is "?L = ?R")
proof
  assume ?L
  then obtain i j where ij: "i < j" "j < length (x # xs)" "P ((x # xs) ! i)" "P ((x # xs) ! j)"
    by blast
  then obtain j' where j: "j = Suc j'" by (cases j) auto
  show ?R
  proof (cases i)
    case 0
    with ij j show ?thesis by auto
  next
    case (Suc i')
    with ij j have "i' < j' \<and> j' < length xs \<and> P (xs ! i') \<and> P (xs ! j')" by simp
    then show ?thesis by blast
  qed
next
  assume ?R
  then show ?L
  proof
    assume "P x \<and> (\<exists>y\<in>set xs. P y)"
    then obtain k where "P x" "k < length xs" "P (xs ! k)"
      by (auto simp: in_set_conv_nth)
    then have "0 < Suc k \<and> Suc k < length (x # xs) \<and> P ((x # xs) ! 0) \<and> P ((x # xs) ! Suc k)"
      by simp
    then show ?L by blast
  next
    assume "\<exists>i j. i < j \<and> j < length xs \<and> P (xs ! i) \<and> P (xs ! j)"
    then obtain i j where "i < j" "j < length xs" "P (xs ! i)" "P (xs ! j)" by blast
    then have "Suc i < Suc j \<and> Suc j < length (x # xs) \<and> P ((x # xs) ! Suc i) \<and> P ((x # xs) ! Suc j)"
      by simp
    then show ?L by blast
  qed
qed

lemma not_exactly_one:
  "(length (filter P xs) \<noteq> 1) =
     ((\<forall>x\<in>set xs. \<not> P x) \<or> (\<exists>i j. i < j \<and> j < length xs \<and> P (xs ! i) \<and> P (xs ! j)))"
proof (induction xs)
  case Nil
  show ?case by simp
next
  case (Cons x xs)
  show ?case
  proof (cases "P x")
    case True
    then show ?thesis
      unfolding two_indices_Cons by (auto simp: filter_empty_conv)
  next
    case False
    with Cons show ?thesis
      unfolding two_indices_Cons by auto
  qed
qed

lemma count_list_filter:
  "count_list (filter P xs) x = (if P x then count_list xs x else 0)"
  by (induction xs) auto

subsection \<open>The demonstration\<close>

text \<open>The filters of the \<^verbatim>\<open>__main__\<close> block on its three products: large and green,
  large or green, large xor green.\<close>

lemma demonstration_large_and_green:
  "fst (BetterFilter_filter [apple, tree, house]
          (AndSpecification [SizeSpecification LARGE, ColorSpecification GREEN]) []) = [tree]"
  unfolding BetterFilter_filter_vals
  by (simp add: AndSpecification_vals apple_def tree_def house_def)

lemma demonstration_large_or_green:
  "fst (BetterFilter_filter [apple, tree, house]
          (OrSpecification [SizeSpecification LARGE, ColorSpecification GREEN]) []) =
     [apple, tree, house]"
  unfolding BetterFilter_filter_vals
  by (simp add: OrSpecification_vals apple_def tree_def house_def)

lemma demonstration_large_xor_green:
  "fst (BetterFilter_filter [apple, tree, house]
          (XorSpecification [SizeSpecification LARGE, ColorSpecification GREEN]) []) =
     [apple, house]"
  unfolding BetterFilter_filter_vals
  by (simp add: XorSpecification_count apple_def tree_def house_def)

section \<open>The claims\<close>

subsection \<open>The XOR combinator\<close>

text \<open>Claim C1. For every tuple of children, every item and every heap,
  \<^verbatim>\<open>XorSpecification.is_satisfied\<close> returns true if and only if exactly one child is
  satisfied by the item. Children are counted by their position in the tuple, so a
  specification that is given twice counts twice; whether a child is satisfied does not
  depend on the heap it is evaluated in (\<open>h'\<close> is any heap). With no child the result is
  false.\<close>

theorem XorSpecification_exactly_one:
  "fst (is_satisfied (XorSpecification specs) item h) =
     (length (filter (\<lambda>spec. fst (is_satisfied spec item h')) specs) = 1)
   \<and> \<not> fst (is_satisfied (XorSpecification []) item h)"
proof -
  have "filter (\<lambda>spec. fst (is_satisfied spec item h')) specs =
        filter (\<lambda>spec. fst (is_satisfied spec item h)) specs"
    using is_satisfied_heap_indep by (intro filter_cong) auto
  then show ?thesis
    by (simp add: XorSpecification_count)
qed

text \<open>Claim C2, as stated: the expression \<^verbatim>\<open>any(satisfied) and not any(satisfied)\<close> is
  false on every input. It is not: for the specification of
  \<^verbatim>\<open>test_xor_specification_is_satisfied_correct_response\<close>, a child that is satisfied
  and one that is not, the method returns true on the apple.\<close>

theorem xor_expression_true_counterexample:
  "fst (is_satisfied (XorSpecification [MockSpecification True, MockSpecification False])
         \<lparr>name = ''Apple'', color = GREEN, size_attr = SMALL\<rparr> [])"
  by code_simp

text \<open>Claim C2, amended. The two calls of \<^verbatim>\<open>any\<close> take their values from the same map
  object: the first stops behind the first satisfied child, the second sees the children
  after it. So the expression is false exactly when no child is satisfied or when two
  children, at two positions of the tuple, are satisfied; in every other case, that is
  when exactly one child is satisfied, it is true.\<close>

theorem xor_expression_false_iff:
  "(\<not> fst (is_satisfied (XorSpecification specs) item h)) =
     ((\<forall>spec\<in>set specs. \<not> fst (is_satisfied spec item h)) \<or>
      (\<exists>i j. i < j \<and> j < length specs \<and>
         fst (is_satisfied (specs ! i) item h) \<and> fst (is_satisfied (specs ! j) item h)))"
  using not_exactly_one[of "\<lambda>spec. fst (is_satisfied spec item h)" specs]
  by (simp add: XorSpecification_count)

theorem xor_expression_false_iff_witness:
  "\<not> fst (is_satisfied (MockSpecification False) apple [])
   \<and> \<not> fst (is_satisfied (ColorSpecification BLUE) apple [])
   \<and> \<not> fst (is_satisfied (XorSpecification [MockSpecification False, ColorSpecification BLUE])
            apple [])"
proof -
  have none: "\<forall>spec\<in>set [MockSpecification False, ColorSpecification BLUE].
                \<not> fst (is_satisfied spec apple [])"
    by (simp add: apple_def)
  with xor_expression_false_iff
         [of "[MockSpecification False, ColorSpecification BLUE]" apple "[]"]
  have "\<not> fst (is_satisfied (XorSpecification [MockSpecification False, ColorSpecification BLUE])
              apple [])"
    by blast
  with none show ?thesis by simp
qed

subsection \<open>The filter\<close>

text \<open>Claim C3. For every list of items, every specification and every heap,
  \<^verbatim>\<open>BetterFilter.filter\<close> yields exactly the items that satisfy the specification: the
  result is the input with the items that do not satisfy it left out, so it is a
  subsequence of the input in the input's order, and every item occurs in it as often as
  in the input when it satisfies the specification and not at all when it does not.\<close>

theorem BetterFilter_filter_subsequence:
  "fst (BetterFilter_filter items spec h) =
     filter (\<lambda>item. fst (is_satisfied spec item h)) items
   \<and> subseq (fst (BetterFilter_filter items spec h)) items
   \<and> (\<forall>x. count_list (fst (BetterFilter_filter items spec h)) x =
            (if fst (is_satisfied spec x h) then count_list items x else 0))"
proof -
  let ?sat = "\<lambda>item. fst (is_satisfied spec item h)"
  have yielded: "fst (BetterFilter_filter items spec h) = filter ?sat items"
    by (rule BetterFilter_filter_vals)
  have "subseq (filter ?sat items) items"
    by (rule subseq_filter_left)
  moreover have "\<forall>x. count_list (filter ?sat items) x = (if ?sat x then count_list items x else 0)"
    by (simp add: count_list_filter)
  ultimately show ?thesis
    unfolding yielded by blast
qed

subsection \<open>The AND and OR combinators\<close>

text \<open>Claim C4. \<^verbatim>\<open>AndSpecification.is_satisfied\<close> returns true if and only if every child
  is satisfied by the item; with no child it returns true, and filtering by
  \<^verbatim>\<open>AndSpecification()\<close> yields all the items.\<close>

theorem AndSpecification_all_children:
  "fst (is_satisfied (AndSpecification specs) item h) =
     (\<forall>spec\<in>set specs. fst (is_satisfied spec item h))
   \<and> fst (is_satisfied (AndSpecification []) item h)
   \<and> fst (BetterFilter_filter items (AndSpecification []) h) = items"
proof -
  have "fst (is_satisfied (AndSpecification specs) item h) =
          (\<forall>spec\<in>set specs. fst (is_satisfied spec item h))"
    by (auto simp: AndSpecification_vals)
  moreover have "\<And>i h'. fst (is_satisfied (AndSpecification []) i h')"
    by (simp add: AndSpecification_vals)
  ultimately show ?thesis
    by (simp add: BetterFilter_filter_vals)
qed

theorem AndSpecification_all_children_witness:
  "fst (is_satisfied (SizeSpecification LARGE) tree [])
   \<and> fst (is_satisfied (ColorSpecification GREEN) tree [])
   \<and> fst (is_satisfied (AndSpecification [SizeSpecification LARGE, ColorSpecification GREEN])
          tree [])"
proof -
  have every: "\<forall>spec\<in>set [SizeSpecification LARGE, ColorSpecification GREEN].
                 fst (is_satisfied spec tree [])"
    by (simp add: tree_def)
  with AndSpecification_all_children
         [of "[SizeSpecification LARGE, ColorSpecification GREEN]" tree "[]" "[]"]
  have "fst (is_satisfied (AndSpecification [SizeSpecification LARGE, ColorSpecification GREEN])
             tree [])"
    by blast
  with every show ?thesis by simp
qed

text \<open>Claim C5. \<^verbatim>\<open>OrSpecification.is_satisfied\<close> returns true if and only if at least one
  child is satisfied by the item; with no child it returns false, and filtering by
  \<^verbatim>\<open>OrSpecification()\<close> yields no item.\<close>

theorem OrSpecification_some_child:
  "fst (is_satisfied (OrSpecification specs) item h) =
     (\<exists>spec\<in>set specs. fst (is_satisfied spec item h))
   \<and> \<not> fst (is_satisfied (OrSpecification []) item h)
   \<and> fst (BetterFilter_filter items (OrSpecification []) h) = []"
proof -
  have "fst (is_satisfied (OrSpecification specs) item h) =
          (\<exists>spec\<in>set specs. fst (is_satisfied spec item h))"
    by (auto simp: OrSpecification_vals)
  moreover have "\<And>i h'. \<not> fst (is_satisfied (OrSpecification []) i h')"
    by (simp add: OrSpecification_vals)
  ultimately show ?thesis
    by (simp add: BetterFilter_filter_vals)
qed

theorem OrSpecification_some_child_witness:
  "(\<exists>spec\<in>set [SizeSpecification LARGE, ColorSpecification GREEN].
       fst (is_satisfied spec apple []))
   \<and> fst (is_satisfied (OrSpecification [SizeSpecification LARGE, ColorSpecification GREEN])
          apple [])"
proof -
  have some: "\<exists>spec\<in>set [SizeSpecification LARGE, ColorSpecification GREEN].
                fst (is_satisfied spec apple [])"
    by (simp add: apple_def)
  with OrSpecification_some_child
         [of "[SizeSpecification LARGE, ColorSpecification GREEN]" apple "[]" "[]"]
  show ?thesis by blast
qed

subsection \<open>The composition operators\<close>


subsection \<open>Commutativity and associativity\<close>

text \<open>Claim C7. On every item, the AND, the OR and the XOR of two specifications have the
  same value when the two children are exchanged, and the AND and the OR of three
  specifications have the same value however the children are grouped.\<close>

theorem combinators_commutative_associative:
  "fst (is_satisfied (AndSpecification [a, b]) item h) =
     fst (is_satisfied (AndSpecification [b, a]) item h)
   \<and> fst (is_satisfied (OrSpecification [a, b]) item h) =
       fst (is_satisfied (OrSpecification [b, a]) item h)
   \<and> fst (is_satisfied (XorSpecification [a, b]) item h) =
       fst (is_satisfied (XorSpecification [b, a]) item h)
   \<and> fst (is_satisfied (AndSpecification [AndSpecification [a, b], c]) item h) =
       fst (is_satisfied (AndSpecification [a, AndSpecification [b, c]]) item h)
   \<and> fst (is_satisfied (OrSpecification [OrSpecification [a, b], c]) item h) =
       fst (is_satisfied (OrSpecification [a, OrSpecification [b, c]]) item h)"
proof -
  have "fst (is_satisfied (AndSpecification [a, b]) item h) =
        fst (is_satisfied (AndSpecification [b, a]) item h)"
    by (auto simp: AndSpecification_vals)
  moreover have "fst (is_satisfied (OrSpecification [a, b]) item h) =
                 fst (is_satisfied (OrSpecification [b, a]) item h)"
    by (auto simp: OrSpecification_vals)
  moreover have "fst (is_satisfied (XorSpecification [a, b]) item h) =
                 fst (is_satisfied (XorSpecification [b, a]) item h)"
    by (auto simp: XorSpecification_count)
  moreover have "fst (is_satisfied (AndSpecification [AndSpecification [a, b], c]) item h) =
                 fst (is_satisfied (AndSpecification [a, AndSpecification [b, c]]) item h)"
    by (auto simp: AndSpecification_vals)
  moreover have "fst (is_satisfied (OrSpecification [OrSpecification [a, b], c]) item h) =
                 fst (is_satisfied (OrSpecification [a, OrSpecification [b, c]]) item h)"
    by (auto simp: OrSpecification_vals)
  ultimately show ?thesis by blast
qed

subsection \<open>Determinism\<close>

text \<open>Claim C8. The value of \<^verbatim>\<open>is_satisfied\<close> is the same in any two heaps, and in
  particular in the heap that an earlier evaluation of the same specification has left
  behind: the map object of an evaluation is new, and an exhausted or half-read map
  object of an earlier one is not looked at. The same holds for the sequence that
  \<^verbatim>\<open>BetterFilter.filter\<close> yields. A call of the filter changes no object that exists
  when it starts, so the collection of items, at whatever address it is, is after the
  call what it was before.\<close>

theorem is_satisfied_and_filter_deterministic:
  "fst (is_satisfied s item h') = fst (is_satisfied s item h)
   \<and> fst (is_satisfied s item (snd (is_satisfied s item h))) = fst (is_satisfied s item h)
   \<and> fst (BetterFilter_filter items spec h') = fst (BetterFilter_filter items spec h)
   \<and> fst (BetterFilter_filter items spec (snd (BetterFilter_filter items spec h))) =
       fst (BetterFilter_filter items spec h)
   \<and> take (length h) (snd (is_satisfied s item h)) = h
   \<and> take (length h) (snd (BetterFilter_filter items spec h)) = h
   \<and> (r < length h \<and> h ! r = ListObject items \<longrightarrow>
        snd (BetterFilter_filter items spec h) ! r = ListObject items)"
proof -
  have indep: "fst (BetterFilter_filter items spec h1) = fst (BetterFilter_filter items spec h2)"
    for h1 h2
  proof -
    have "filter (\<lambda>i. fst (is_satisfied spec i h1)) items =
          filter (\<lambda>i. fst (is_satisfied spec i h2)) items"
      using is_satisfied_heap_indep by (intro filter_cong) auto
    then show ?thesis by (simp add: BetterFilter_filter_vals)
  qed
  obtain g where g: "snd (is_satisfied s item h) = h @ g"
    using is_satisfied_extends by blast
  obtain g' where g': "snd (BetterFilter_filter items spec h) = h @ g'"
    using BetterFilter_filter_frame by blast
  have "fst (is_satisfied s item h') = fst (is_satisfied s item h)"
    by (rule is_satisfied_heap_indep)
  moreover have "fst (is_satisfied s item (snd (is_satisfied s item h))) =
                 fst (is_satisfied s item h)"
    by (rule is_satisfied_heap_indep)
  moreover note indep[of h' h] indep[of "snd (BetterFilter_filter items spec h)" h]
  moreover have "take (length h) (snd (is_satisfied s item h)) = h"
    by (simp add: g)
  moreover have "take (length h) (snd (BetterFilter_filter items spec h)) = h"
    by (simp add: g')
  moreover have "r < length h \<and> h ! r = ListObject items \<longrightarrow>
                 snd (BetterFilter_filter items spec h) ! r = ListObject items"
    by (simp add: g' nth_append)
  ultimately show ?thesis by blast
qed

theorem is_satisfied_and_filter_deterministic_witness:
  "0 < length [ListObject [apple, tree, house]]
   \<and> [ListObject [apple, tree, house]] ! 0 = ListObject [apple, tree, house]
   \<and> snd (BetterFilter_filter [apple, tree, house]
            (XorSpecification [SizeSpecification LARGE, ColorSpecification GREEN])
            [ListObject [apple, tree, house]]) ! 0 = ListObject [apple, tree, house]"
  using is_satisfied_and_filter_deterministic
          [where items = "[apple, tree, house]"
             and spec = "XorSpecification [SizeSpecification LARGE, ColorSpecification GREEN]"
             and h = "[ListObject [apple, tree, house]]" and r = 0]
  by simp

subsection \<open>The old filter and the new one\<close>

text \<open>Claim C9. On every collection the three generators of \<^verbatim>\<open>ProductFilter\<close> yield the
  sequences that \<^verbatim>\<open>BetterFilter.filter\<close> yields with the matching specification: the
  colour, the size, and the AND of the size and the colour, in either order and built by
  the constructor or by the operator.\<close>

theorem ProductFilter_agrees_with_BetterFilter:
  "filter_by_color items c = fst (BetterFilter_filter items (ColorSpecification c) h)
   \<and> filter_by_size items s = fst (BetterFilter_filter items (SizeSpecification s) h)
   \<and> filter_by_size_and_color items s c =
       fst (BetterFilter_filter items
              (AndSpecification [SizeSpecification s, ColorSpecification c]) h)
   \<and> filter_by_size_and_color items s c =
       fst (BetterFilter_filter items
              (AndSpecification [ColorSpecification c, SizeSpecification s]) h)
   \<and> filter_by_size_and_color items s c =
       fst (BetterFilter_filter items
              (Specification_and (SizeSpecification s) (ColorSpecification c)) h)"
proof -
  have "filter_by_color items c = filter (\<lambda>item. color item = c) items"
    by (induction items) auto
  moreover have "filter_by_size items s = filter (\<lambda>item. size_attr item = s) items"
    by (induction items) auto
  moreover have "filter_by_size_and_color items s c =
                 filter (\<lambda>item. color item = c \<and> size_attr item = s) items"
    by (induction items) auto
  moreover have "filter (\<lambda>item. color item = c \<and> size_attr item = s) items =
                 filter (\<lambda>item. size_attr item = s \<and> color item = c) items"
    by (rule filter_cong) auto
  ultimately show ?thesis
    by (simp add: BetterFilter_filter_vals AndSpecification_vals Specification_and_def)
qed

section \<open>The journal's entry numbers\<close>

text \<open>Claim C10. For a journal with the entries \<open>e1 .. en\<close> and an entry number \<open>k\<close>
  between 1 and \<open>n\<close>, \<^verbatim>\<open>remove_entry(k)\<close> raises nothing and leaves the entries
  \<open>e1 .. e(k-1), e(k+1) .. en\<close>: the first \<open>k - 1\<close> entries followed by those after the
  \<open>k\<close>-th. So \<^verbatim>\<open>add_entry(t)\<close> followed by \<^verbatim>\<open>remove_entry(n + 1)\<close> gives the journal
  back.\<close>

theorem remove_entry_one_based:
  "(1 \<le> k \<and> k \<le> int (length (entries j)) \<longrightarrow>
      remove_entry j k =
        Inr (j\<lparr>entries := take (nat (k - 1)) (entries j) @ drop (nat k) (entries j)\<rparr>))
   \<and> remove_entry (add_entry j t) (int (length (entries j)) + 1) = Inr j"
proof -
  have "remove_entry j k =
          Inr (j\<lparr>entries := take (nat (k - 1)) (entries j) @ drop (nat k) (entries j)\<rparr>)"
    if "1 \<le> k" "k \<le> int (length (entries j))"
    using that by (simp add: remove_entry_def Let_def Suc_nat_eq_nat_zadd1 nat_diff_distrib)
  moreover have "remove_entry (add_entry j t) (int (length (entries j)) + 1) = Inr j"
    by (simp add: remove_entry_def add_entry_def Let_def)
  ultimately show ?thesis by blast
qed

theorem remove_entry_one_based_witness:
  "(1::int) \<le> 2
   \<and> 2 \<le> int (length (entries (add_entry (add_entry (add_entry Journal_init ''a'') ''b'') ''c'')))
   \<and> remove_entry (add_entry (add_entry (add_entry Journal_init ''a'') ''b'') ''c'') 2 =
       Inr \<lparr>entries = [''a'', ''c'']\<rparr>"
  using remove_entry_one_based
          [of 2 "add_entry (add_entry (add_entry Journal_init ''a'') ''b'') ''c''" "''d''"]
  by (simp add: add_entry_def Journal_init_def)

end
